theory Spec2Isabelle
  imports
    Main
    "HOL-Library.Word"
    "HOL-Library.Char_ord"
    "HOL-Library.List_Lexorder"
begin

section \<open>Strings and bytes\<close>

text \<open>
  A Python \<open>str\<close> is modelled as a \<open>string\<close>; every \<open>char\<close> stands for the code point
  \<open>of_char c\<close>, so the model covers the code points 0 to 255.  Python compares
  strings by code point, which is the lexicographic order on \<open>char list\<close>.
  A Python \<open>bytes\<close> value is a list of 8-bit words.
\<close>

type_synonym byte = "8 word"
type_synonym bytes = "byte list"

text \<open>\<open>str.encode('utf-8')\<close> on code points below 256: one byte below 128, two bytes above.\<close>

definition utf8_char :: "char \<Rightarrow> bytes" where
  "utf8_char c =
     (let n = (of_char c :: nat)
      in if n < 128 then [of_nat n]
         else [of_nat (192 + n div 64), of_nat (128 + n mod 64)])"

definition encode_utf8 :: "string \<Rightarrow> bytes" where
  "encode_utf8 s = concat (map utf8_char s)"

text \<open>
  The digit of a value below 16: lower-case hexadecimal, as \<open>bytes.hex()\<close> and the
  format \<open>04x\<close> print it; below 10 it is the decimal digit.
\<close>

definition hex_digit :: "nat \<Rightarrow> char" where
  "hex_digit d = ''0123456789abcdef'' ! d"

definition hex_byte :: "byte \<Rightarrow> string" where
  "hex_byte b = [hex_digit (unat b div 16), hex_digit (unat b mod 16)]"

definition bytes_hex :: "bytes \<Rightarrow> string" where
  "bytes_hex bs = concat (map hex_byte bs)"

section \<open>Canonical serialization: \<open>json.dumps\<close>\<close>

text \<open>
  The documents that are hashed are built from \<open>None\<close>, booleans, integers, strings,
  lists and dictionaries with string keys.  A dictionary is the list of its items in
  insertion order; a Python dictionary never holds a key twice.
\<close>

datatype json =
    JNull
  | JBool bool
  | JInt int
  | JStr string
  | JList "json list"
  | JDict "(string \<times> json) list"

text \<open>\<open>int.__repr__\<close>: decimal digits, a minus sign for negative numbers.\<close>

fun dec_nat :: "nat \<Rightarrow> string" where
  "dec_nat n = (if n < 10 then [hex_digit n] else dec_nat (n div 10) @ [hex_digit (n mod 10)])"

declare dec_nat.simps [simp del]

definition int_repr :: "int \<Rightarrow> string" where
  "int_repr i = (if i < 0 then CHR ''-'' # dec_nat (nat (- i)) else dec_nat (nat i))"

text \<open>
  \<open>json.encoder.py_encode_basestring_ascii\<close> (\<open>ensure_ascii\<close> is left at its default):
  backslash, the double quote and every character outside \<open>' '..'~'\<close> are escaped.
\<close>

definition escape_char :: "char \<Rightarrow> string" where
  "escape_char c =
     (if c = CHR 0x5C then [CHR 0x5C, CHR 0x5C]
      else if c = CHR 0x22 then [CHR 0x5C, CHR 0x22]
      else if c = CHR 0x08 then [CHR 0x5C, CHR ''b'']
      else if c = CHR 0x0C then [CHR 0x5C, CHR ''f'']
      else if c = CHR 0x0A then [CHR 0x5C, CHR ''n'']
      else if c = CHR 0x0D then [CHR 0x5C, CHR ''r'']
      else if c = CHR 0x09 then [CHR 0x5C, CHR ''t'']
      else if 32 \<le> (of_char c :: nat) \<and> (of_char c :: nat) \<le> 126 then [c]
      else [CHR 0x5C, CHR ''u'', CHR ''0'', CHR ''0'',
            hex_digit (of_char c div 16), hex_digit (of_char c mod 16)])"

definition encode_basestring_ascii :: "string \<Rightarrow> string" where
  "encode_basestring_ascii s = [CHR 0x22] @ concat (map escape_char s) @ [CHR 0x22]"

text \<open>\<open>sep.join(parts)\<close>.\<close>

fun join :: "string \<Rightarrow> string list \<Rightarrow> string" where
  "join sep [] = []"
| "join sep [x] = x"
| "join sep (x # y # ys) = x @ sep @ join sep (y # ys)"

text \<open>
  \<open>json.dumps(obj, sort_keys=sk, separators=(item_sep, key_sep))\<close>.  With \<open>sort_keys\<close>
  the items of every dictionary are sorted by key before they are written.
\<close>

lemma json_item_size:
  "(k, v) \<in> set kvs \<Longrightarrow> size v < Suc (size_list (size_prod (\<lambda>_. 0) size) kvs)"
  by (induction kvs) auto

function json_dumps :: "bool \<Rightarrow> string \<Rightarrow> string \<Rightarrow> json \<Rightarrow> string" where
  "json_dumps sk item_sep key_sep JNull = ''null''"
| "json_dumps sk item_sep key_sep (JBool b) = (if b then ''true'' else ''false'')"
| "json_dumps sk item_sep key_sep (JInt i) = int_repr i"
| "json_dumps sk item_sep key_sep (JStr s) = encode_basestring_ascii s"
| "json_dumps sk item_sep key_sep (JList xs) =
     ''['' @ join item_sep (map (json_dumps sk item_sep key_sep) xs) @ '']''"
| "json_dumps sk item_sep key_sep (JDict kvs) =
     ''{'' @ join item_sep
        (map (\<lambda>kv. encode_basestring_ascii (fst kv) @ key_sep @ json_dumps sk item_sep key_sep (snd kv))
          (if sk then sort_key fst kvs else kvs)) @ ''}''"
  by pat_completeness auto
termination
proof (relation "measure (\<lambda>(sk, isep, ksep, j). size j)", goal_cases)
  case 1
  show ?case by simp
next
  case (2 sk isep ksep xs x)
  then show ?case by (induction xs) auto
next
  case (3 sk isep ksep kvs kv)
  then have "(fst kv, snd kv) \<in> set kvs" by (auto split: if_splits)
  then show ?case using json_item_size by fastforce
qed

text \<open>The separators of the two call shapes that occur in the repository.\<close>

definition compact_dumps :: "json \<Rightarrow> string" where
  \<comment> \<open>\<open>json.dumps(state, sort_keys=True, separators=(',', ':'))\<close>\<close>
  "compact_dumps d = json_dumps True '','' '':'' d"

definition default_dumps :: "json \<Rightarrow> string" where
  \<comment> \<open>\<open>json.dumps(state, sort_keys=True)\<close>: the default separators are \<open>', '\<close> and \<open>': '\<close>\<close>
  "default_dumps d = json_dumps True '', '' '': '' d"

section \<open>The three copies of the state hashing\<close>

text \<open>
  The hash functions are library code (\<open>Web3.keccak\<close>, \<open>hashlib.sha256\<close>); they are
  parameters of the model.  \<open>w3.keccak(text=s)\<close> hashes the UTF-8 bytes of \<open>s\<close>.
\<close>

definition anchor_my_state_json :: "json \<Rightarrow> string" where
  \<comment> \<open>\<open>anchor_my_state\<close>, step 2: \<open>json.dumps(state, sort_keys=True, separators=(',', ':'))\<close>\<close>
  "anchor_my_state_json state = compact_dumps state"

definition anchor_my_state_hash :: "(bytes \<Rightarrow> bytes) \<Rightarrow> json \<Rightarrow> bytes" where
  \<comment> \<open>\<open>w3.keccak(text=state_json)\<close>\<close>
  "anchor_my_state_hash keccak state = keccak (encode_utf8 (anchor_my_state_json state))"

definition wallet_state_json :: "json \<Rightarrow> string" where
  \<comment> \<open>\<open>SelfSovereignWallet.anchor_state\<close>: \<open>json.dumps(state_data, sort_keys=True)\<close>\<close>
  "wallet_state_json state_data = default_dumps state_data"

definition wallet_anchor_state_hash :: "(bytes \<Rightarrow> bytes) \<Rightarrow> json \<Rightarrow> bytes" where
  \<comment> \<open>\<open>hashlib.sha256(state_json.encode()).digest()\<close>\<close>
  "wallet_anchor_state_hash sha256 state_data = sha256 (encode_utf8 (wallet_state_json state_data))"

definition ouroboros_state_json :: "json \<Rightarrow> string" where
  \<comment> \<open>\<open>ouroboros_test.main\<close>: \<open>json.dumps(cognitive_state, sort_keys=True)\<close>\<close>
  "ouroboros_state_json cognitive_state = default_dumps cognitive_state"

definition ouroboros_state_hash :: "(bytes \<Rightarrow> bytes) \<Rightarrow> json \<Rightarrow> bytes" where
  \<comment> \<open>\<open>w3.keccak(text=state_json)\<close>\<close>
  "ouroboros_state_hash keccak cognitive_state =
     keccak (encode_utf8 (ouroboros_state_json cognitive_state))"

text \<open>
  Two documents have the same logical content when they agree up to the insertion
  order of dictionary items: equal atoms, lists related element by element, and
  dictionaries with the same keys whose values under every key are related.
\<close>

inductive same_content :: "json \<Rightarrow> json \<Rightarrow> bool" where
  sc_null: "same_content JNull JNull"
| sc_bool: "same_content (JBool b) (JBool b)"
| sc_int: "same_content (JInt i) (JInt i)"
| sc_str: "same_content (JStr s) (JStr s)"
| sc_list: "list_all2 same_content xs ys \<Longrightarrow> same_content (JList xs) (JList ys)"
| sc_dict:
    "distinct (map fst kvs) \<Longrightarrow> distinct (map fst kvs') \<Longrightarrow>
     set (map fst kvs) = set (map fst kvs') \<Longrightarrow>
     (\<forall>kv \<in> set kvs. \<forall>kv' \<in> set kvs'. fst kv = fst kv' \<longrightarrow> same_content (snd kv) (snd kv')) \<Longrightarrow>
     same_content (JDict kvs) (JDict kvs')"

text \<open>
  The canonical form in the words of the specification: first every mapping is sorted
  by key, recursively; then the tokens are written in the stored order.
\<close>

function sort_keys_rec :: "json \<Rightarrow> json" where
  "sort_keys_rec JNull = JNull"
| "sort_keys_rec (JBool b) = JBool b"
| "sort_keys_rec (JInt i) = JInt i"
| "sort_keys_rec (JStr s) = JStr s"
| "sort_keys_rec (JList xs) = JList (map sort_keys_rec xs)"
| "sort_keys_rec (JDict kvs) =
     JDict (sort_key fst (map (\<lambda>kv. (fst kv, sort_keys_rec (snd kv))) kvs))"
  by pat_completeness auto
termination
proof (relation "measure size", goal_cases)
  case 1
  show ?case by simp
next
  case (2 xs x)
  then show ?case by (induction xs) auto
next
  case (3 kvs kv)
  then have "(fst kv, snd kv) \<in> set kvs" by simp
  then show ?case using json_item_size by fastforce
qed

text \<open>The space characters that the strings of a document (keys and values) hold themselves.\<close>

definition count_spaces :: "string \<Rightarrow> nat" where
  "count_spaces s = length (filter (\<lambda>c. c = CHR '' '') s)"

fun string_spaces :: "json \<Rightarrow> nat" where
  "string_spaces JNull = 0"
| "string_spaces (JBool b) = 0"
| "string_spaces (JInt i) = 0"
| "string_spaces (JStr s) = count_spaces s"
| "string_spaces (JList xs) = sum_list (map string_spaces xs)"
| "string_spaces (JDict kvs) =
     sum_list (map (\<lambda>kv. count_spaces (fst kv) + string_spaces (snd kv)) kvs)"

subsection \<open>Insertion order does not reach the commitment\<close>

lemma sorted_keys_unique:
  assumes "distinct (map fst xs)" "distinct (map fst ys)" "set (map fst xs) = set (map fst ys)"
  shows "map fst (sort_key fst xs) = map fst (sort_key fst ys)"
proof (rule sorted_distinct_set_unique)
  show "sorted (map fst (sort_key fst xs))" by simp
  show "sorted (map fst (sort_key fst ys))" by simp
  show "distinct (map fst (sort_key fst xs))" using assms(1) by (simp add: distinct_map)
  show "distinct (map fst (sort_key fst ys))" using assms(2) by (simp add: distinct_map)
  show "set (map fst (sort_key fst xs)) = set (map fst (sort_key fst ys))" using assms(3) by simp
qed

lemma map_items_cong:
  assumes "map fst as = map fst bs"
    and "\<forall>kv \<in> set as. \<forall>kv' \<in> set bs. fst kv = fst kv' \<longrightarrow> g (snd kv) = g (snd kv')"
  shows "map (\<lambda>kv. h (fst kv) (g (snd kv))) as = map (\<lambda>kv. h (fst kv) (g (snd kv))) bs"
  using assms
proof (induction as arbitrary: bs)
  case Nil
  then show ?case by simp
next
  case (Cons a as)
  then obtain b bs' where bs: "bs = b # bs'" by (cases bs) auto
  with Cons.prems have "fst a = fst b" "map fst as = map fst bs'" by auto
  moreover have "g (snd a) = g (snd b)" using Cons.prems(2) bs \<open>fst a = fst b\<close> by auto
  moreover have "map (\<lambda>kv. h (fst kv) (g (snd kv))) as = map (\<lambda>kv. h (fst kv) (g (snd kv))) bs'"
    using Cons.IH[OF \<open>map fst as = map fst bs'\<close>] Cons.prems(2) bs by auto
  ultimately show ?case using bs by simp
qed

lemma same_content_dumps:
  "same_content d1 d2 \<Longrightarrow> json_dumps True isep ksep d1 = json_dumps True isep ksep d2"
proof (induction rule: same_content.induct)
  case (sc_list xs ys)
  then have "map (json_dumps True isep ksep) xs = map (json_dumps True isep ksep) ys"
    by (induction rule: list_all2_induct) auto
  then show ?case by simp
next
  case (sc_dict kvs kvs')
  have keys: "map fst (sort_key fst kvs) = map fst (sort_key fst kvs')"
    using sc_dict(1-3) by (rule sorted_keys_unique)
  have vals: "\<forall>kv \<in> set (sort_key fst kvs). \<forall>kv' \<in> set (sort_key fst kvs'). fst kv = fst kv' \<longrightarrow>
      json_dumps True isep ksep (snd kv) = json_dumps True isep ksep (snd kv')"
    using sc_dict(4) by simp
  have "map (\<lambda>kv. (\<lambda>k s. encode_basestring_ascii k @ ksep @ s) (fst kv) (json_dumps True isep ksep (snd kv))) (sort_key fst kvs)
      = map (\<lambda>kv. (\<lambda>k s. encode_basestring_ascii k @ ksep @ s) (fst kv) (json_dumps True isep ksep (snd kv))) (sort_key fst kvs')"
    using keys vals by (rule map_items_cong)
  then show ?case by simp
qed simp_all

text \<open>
  Claim C1.  Two documents with the same logical content and a different insertion
  order of their keys get the same serialization and the same commitment in
  \<open>anchor_my_state\<close>.  The serialization and the hash read nothing but the document:
  the commitment is a function of the document alone, so a repeated call on the same
  document returns the same value.
\<close>

theorem C1_commitment_ignores_insertion_order:
  assumes "same_content d1 d2"
  shows "anchor_my_state_json d1 = anchor_my_state_json d2
       \<and> anchor_my_state_hash keccak d1 = anchor_my_state_hash keccak d2"
  using same_content_dumps [OF assms]
  by (simp add: anchor_my_state_hash_def anchor_my_state_json_def compact_dumps_def)

theorem C1_commitment_ignores_insertion_order_witness:
  "same_content
     (JDict [(''a'', JInt 1), (''b'', JList [JInt 1, JDict [(''y'', JNull), (''x'', JStr ''s'')]])])
     (JDict [(''b'', JList [JInt 1, JDict [(''x'', JStr ''s''), (''y'', JNull)]]), (''a'', JInt 1)])
   \<and> (\<forall>keccak.
        anchor_my_state_hash keccak
          (JDict [(''a'', JInt 1), (''b'', JList [JInt 1, JDict [(''y'', JNull), (''x'', JStr ''s'')]])])
      = anchor_my_state_hash keccak
          (JDict [(''b'', JList [JInt 1, JDict [(''x'', JStr ''s''), (''y'', JNull)]]), (''a'', JInt 1)]))"
proof -
  have sc: "same_content
     (JDict [(''a'', JInt 1), (''b'', JList [JInt 1, JDict [(''y'', JNull), (''x'', JStr ''s'')]])])
     (JDict [(''b'', JList [JInt 1, JDict [(''x'', JStr ''s''), (''y'', JNull)]]), (''a'', JInt 1)])"
    by (auto intro!: same_content.intros)
  show ?thesis using sc C1_commitment_ignores_insertion_order [OF sc] by blast
qed

subsection \<open>The serialization schemes of the three copies\<close>

lemma insort_key_map_fst:
  assumes "\<And>x. fst (g x) = fst x"
  shows "insort_key fst (g x) (map g xs) = map g (insort_key fst x xs)"
  by (induction xs) (simp_all add: assms)

lemma sort_key_map_fst:
  assumes "\<And>x. fst (g x) = fst x"
  shows "sort_key fst (map g xs) = map g (sort_key fst xs)"
  by (induction xs) (simp_all add: insort_key_map_fst [OF assms])

lemma dumps_sort_keys_rec:
  "json_dumps True isep ksep d = json_dumps False isep ksep (sort_keys_rec d)"
proof (induction d)
  case (JList xs)
  then show ?case by (simp cong: map_cong)
next
  case (JDict kvs)
  have vals: "json_dumps True isep ksep (snd kv) = json_dumps False isep ksep (sort_keys_rec (snd kv))"
    if "kv \<in> set kvs" for kv
    using JDict [of kv "snd kv"] that by (cases kv) auto
  have sorted: "sort_key fst (map (\<lambda>kv. (fst kv, sort_keys_rec (snd kv))) kvs)
      = map (\<lambda>kv. (fst kv, sort_keys_rec (snd kv))) (sort_key fst kvs)"
    by (rule sort_key_map_fst) simp
  have items: "map (\<lambda>kv. encode_basestring_ascii (fst kv) @ ksep @ json_dumps True isep ksep (snd kv))
          (sort_key fst kvs)
      = map (\<lambda>kv. encode_basestring_ascii (fst kv) @ ksep
               @ json_dumps False isep ksep (sort_keys_rec (snd kv))) (sort_key fst kvs)"
    by (rule map_cong [OF refl]) (simp add: vals)
  show ?case by (simp add: sorted comp_def items)
qed simp_all

lemma count_spaces_append [simp]: "count_spaces (a @ b) = count_spaces a + count_spaces b"
  by (simp add: count_spaces_def)

lemma count_spaces_Nil [simp]: "count_spaces [] = 0"
  by (simp add: count_spaces_def)

lemma count_spaces_Cons [simp]:
  "count_spaces (c # s) = (if c = CHR '' '' then 1 else 0) + count_spaces s"
  by (simp add: count_spaces_def)

lemma hex_digit_not_space: "d < 16 \<Longrightarrow> hex_digit d \<noteq> CHR '' ''"
proof -
  assume "d < 16"
  then have "d \<in> set [0..<16]" by simp
  moreover have "\<forall>d \<in> set [0..<16]. hex_digit d \<noteq> CHR '' ''" by code_simp
  ultimately show ?thesis by blast
qed

lemma of_char_less_256: "(of_char c :: nat) < 256"
  by (metis of_char_mod_256 mod_less_divisor zero_less_numeral)

lemma of_char_nibbles: "(of_char c :: nat) div 16 < 16" "(of_char c :: nat) mod 16 < 16"
  using of_char_less_256 [of c] by arith+

lemma count_spaces_escape_char:
  "count_spaces (escape_char c) = (if c = CHR '' '' then 1 else 0)"
  by (simp add: escape_char_def hex_digit_not_space of_char_nibbles)

lemma count_spaces_escaped:
  "count_spaces (concat (map escape_char s)) = count_spaces s"
  by (induction s) (simp_all add: count_spaces_escape_char)

lemma count_spaces_basestring [simp]:
  "count_spaces (encode_basestring_ascii s) = count_spaces s"
  by (simp add: encode_basestring_ascii_def count_spaces_escaped)

lemma count_spaces_dec_nat: "count_spaces (dec_nat n) = 0"
proof (induction n rule: dec_nat.induct)
  case (1 n)
  show ?case
  proof (cases "n < 10")
    case True
    then show ?thesis by (subst dec_nat.simps) (simp add: hex_digit_not_space)
  next
    case False
    then show ?thesis using 1 by (subst dec_nat.simps) (simp add: hex_digit_not_space)
  qed
qed

lemma count_spaces_int_repr [simp]: "count_spaces (int_repr i) = 0"
  by (simp add: int_repr_def count_spaces_dec_nat)

lemma count_spaces_join_comma:
  "count_spaces (join '','' xs) = sum_list (map count_spaces xs)"
  by (induction "'',''" xs rule: join.induct) simp_all

lemma sum_list_insort_key:
  "sum_list (map f (insort_key k x xs)) = f x + sum_list (map f xs)" for f :: "'a \<Rightarrow> nat"
  by (induction xs) simp_all

lemma sum_list_sort_key:
  "sum_list (map f (sort_key k xs)) = sum_list (map f xs)" for f :: "'a \<Rightarrow> nat"
  by (induction xs) (simp_all add: sum_list_insort_key)

lemma count_spaces_compact:
  "count_spaces (json_dumps sk '','' '':'' d) = string_spaces d"
proof (induction d)
  case (JList xs)
  then show ?case by (simp add: count_spaces_join_comma comp_def cong: map_cong)
next
  case (JDict kvs)
  have vals: "count_spaces (json_dumps sk '','' '':'' (snd kv)) = string_spaces (snd kv)"
    if "kv \<in> set kvs" for kv
    using JDict [of kv "snd kv"] that by (cases kv) auto
  let ?f = "\<lambda>kv. count_spaces (fst kv) + count_spaces (json_dumps sk '','' '':'' (snd kv))"
  have "sum_list (map ?f (if sk then sort_key fst kvs else kvs)) = sum_list (map ?f kvs)"
    by (simp add: sum_list_sort_key)
  also have "\<dots> = sum_list (map (\<lambda>kv. count_spaces (fst kv) + string_spaces (snd kv)) kvs)"
    using vals by (intro arg_cong [where f = sum_list] map_cong) simp_all
  finally show ?case by (simp add: count_spaces_join_comma comp_def)
qed simp_all

text \<open>
  Claim C2, as stated, fails: the copies in \<open>ouroboros_test.main\<close> and in
  \<open>SelfSovereignWallet.anchor_state\<close> call \<open>json.dumps\<close> without \<open>separators\<close>, so
  they write a space after every comma and colon.  The document \<open>{"a": 1}\<close> is
  serialized with a space by both and without one by \<open>anchor_my_state\<close>.
\<close>

theorem C2_one_scheme_counterexample:
  "ouroboros_state_json (JDict [(''a'', JInt 1)]) = [CHR ''{'', CHR 0x22, CHR ''a'', CHR 0x22, CHR '':'', CHR '' '', CHR ''1'', CHR ''}'']
   \<and> wallet_state_json (JDict [(''a'', JInt 1)]) = [CHR ''{'', CHR 0x22, CHR ''a'', CHR 0x22, CHR '':'', CHR '' '', CHR ''1'', CHR ''}'']
   \<and> anchor_my_state_json (JDict [(''a'', JInt 1)]) = [CHR ''{'', CHR 0x22, CHR ''a'', CHR 0x22, CHR '':'', CHR ''1'', CHR ''}'']
   \<and> ouroboros_state_json (JDict [(''a'', JInt 1)]) \<noteq> anchor_my_state_json (JDict [(''a'', JInt 1)])"
  by (simp add: ouroboros_state_json_def wallet_state_json_def anchor_my_state_json_def
      default_dumps_def compact_dumps_def encode_basestring_ascii_def escape_char_def
      int_repr_def dec_nat.simps hex_digit_def)

text \<open>
  Claim C2, amended.  \<open>anchor_my_state\<close> hashes with Keccak-256 the UTF-8 bytes of the
  key-sorted document written with the separators \<open>,\<close> and \<open>:\<close>, and the only spaces of
  that serialization are those inside the document's own strings.
  \<open>ouroboros_test.main\<close> sorts the keys too but writes the separators \<open>', '\<close> and
  \<open>': '\<close> before it hashes with Keccak-256; \<open>SelfSovereignWallet.anchor_state\<close> writes
  the same spaced serialization and hashes it with SHA-256.
\<close>

theorem C2_serialization_schemes:
  "anchor_my_state_hash keccak d
     = keccak (encode_utf8 (json_dumps False '','' '':'' (sort_keys_rec d)))
   \<and> count_spaces (anchor_my_state_json d) = string_spaces d
   \<and> ouroboros_state_hash keccak d
     = keccak (encode_utf8 (json_dumps False '', '' '': '' (sort_keys_rec d)))
   \<and> wallet_anchor_state_hash sha256 d
     = sha256 (encode_utf8 (json_dumps False '', '' '': '' (sort_keys_rec d)))"
  by (simp add: anchor_my_state_hash_def anchor_my_state_json_def ouroboros_state_hash_def
      ouroboros_state_json_def wallet_anchor_state_hash_def wallet_state_json_def
      compact_dumps_def default_dumps_def dumps_sort_keys_rec [symmetric] count_spaces_compact)

section \<open>RLP encoding\<close>


datatype py_error = TypeError | ValueError | OverflowError | EncodingError | Exception string

datatype rlp_obj = RInt int | RBytes bytes | RList "rlp_obj list"
datatype rlp_item = Atom bytes | Items "rlp_item list"

fun int_to_big_endian :: "nat \<Rightarrow> bytes" where
  "int_to_big_endian n = (if n = 0 then [] else int_to_big_endian (n div 256) @ [of_nat (n mod 256)])"

declare int_to_big_endian.simps [simp del]

definition big_endian_to_int :: "bytes \<Rightarrow> nat" where
  "big_endian_to_int bs = foldl (\<lambda>a b. 256 * a + unat b) 0 bs"

fun sequence :: "(py_error + 'a) list \<Rightarrow> py_error + 'a list" where
  "sequence [] = Inr []"
| "sequence (r # rs) =
     (case r of Inl e \<Rightarrow> Inl e
      | Inr x \<Rightarrow> (case sequence rs of Inl e \<Rightarrow> Inl e | Inr xs \<Rightarrow> Inr (x # xs)))"

fun serialize :: "rlp_obj \<Rightarrow> py_error + rlp_item" where
  "serialize (RInt i) = (if 0 \<le> i then Inr (Atom (int_to_big_endian (nat i))) else Inl TypeError)"
| "serialize (RBytes bs) = Inr (Atom bs)"
| "serialize (RList xs) =
     (case sequence (map serialize xs) of Inl e \<Rightarrow> Inl e | Inr ys \<Rightarrow> Inr (Items ys))"

definition length_prefix :: "nat \<Rightarrow> nat \<Rightarrow> py_error + bytes" where
  "length_prefix len offset =
     (if len < 56 then Inr [of_nat (offset + len)]
      else if len < 256 ^ 8 then
        (let length_string = int_to_big_endian len
         in Inr (of_nat (offset + 56 - 1 + length length_string) # length_string))
      else Inl ValueError)"

fun encode_raw :: "rlp_item \<Rightarrow> py_error + bytes" where
  "encode_raw (Atom item) =
     (if length item = 1 \<and> hd item < 128 then Inr item
      else (case length_prefix (length item) 128 of
              Inl e \<Rightarrow> Inl EncodingError
            | Inr prefix \<Rightarrow> Inr (prefix @ item)))"
| "encode_raw (Items xs) =
     (case sequence (map encode_raw xs) of
        Inl e \<Rightarrow> Inl e
      | Inr parts \<Rightarrow>
          (case length_prefix (length (concat parts)) 192 of
             Inl e \<Rightarrow> Inl EncodingError
           | Inr prefix \<Rightarrow> Inr (prefix @ concat parts)))"

definition rlp_encode :: "rlp_obj \<Rightarrow> py_error + bytes" where
  "rlp_encode obj = (case serialize obj of Inl e \<Rightarrow> Inl e | Inr item \<Rightarrow> encode_raw item)"

definition take_payload :: "bool \<Rightarrow> nat \<Rightarrow> bytes \<Rightarrow> (bool \<times> bytes \<times> bytes) option" where
  "take_payload is_list len bs =
     (if length bs < len then None else Some (is_list, take len bs, drop len bs))"

definition short_string :: "nat \<Rightarrow> bytes \<Rightarrow> (bool \<times> bytes \<times> bytes) option" where
  "short_string len bs =
     (if len = 1 \<and> (case bs of [] \<Rightarrow> False | c # cs \<Rightarrow> unat c < 128) then None
      else take_payload False len bs)"

definition long_payload :: "bool \<Rightarrow> nat \<Rightarrow> bytes \<Rightarrow> (bool \<times> bytes \<times> bytes) option" where
  "long_payload is_list ll bs =
     (if length bs < ll then None
      else if take 1 bs = [0] then None
      else if big_endian_to_int (take ll bs) < 56 then None
      else take_payload is_list (big_endian_to_int (take ll bs)) (drop ll bs))"

fun split_header :: "bytes \<Rightarrow> (bool \<times> bytes \<times> bytes) option" where
  "split_header [] = None"
| "split_header (b # rest) =
     (if unat b < 128 then Some (False, [b], rest)
      else if unat b < 184 then short_string (unat b - 128) rest
      else if unat b < 192 then long_payload False (unat b - 183) rest
      else if unat b < 248 then take_payload True (unat b - 192) rest
      else long_payload True (unat b - 247) rest)"

fun rlp_decode_items :: "nat \<Rightarrow> bytes \<Rightarrow> rlp_item list option" where
  "rlp_decode_items 0 bs = None"
| "rlp_decode_items (Suc n) bs =
     (if bs = [] then Some []
      else (case split_header bs of
              None \<Rightarrow> None
            | Some (is_list, payload, rest) \<Rightarrow>
                (case (if is_list then map_option Items (rlp_decode_items n payload)
                       else Some (Atom payload)) of
                   None \<Rightarrow> None
                 | Some x \<Rightarrow> map_option ((#) x) (rlp_decode_items n rest))))"

definition rlp_decode :: "bytes \<Rightarrow> rlp_item option" where
  "rlp_decode bs =
     (case rlp_decode_items (Suc (length bs)) bs of
        Some [x] \<Rightarrow> Some x
      | _ \<Rightarrow> None)"

subsection \<open>Decoding gives back what was encoded\<close>

lemma unat_byte_of_nat: "k < 256 \<Longrightarrow> unat (of_nat k :: byte) = k"
  by (simp add: unat_of_nat)

lemma big_endian_to_int_snoc:
  "big_endian_to_int (bs @ [b]) = 256 * big_endian_to_int bs + unat b"
  by (simp add: big_endian_to_int_def)

lemma big_endian_roundtrip: "big_endian_to_int (int_to_big_endian n) = n"
proof (induction n rule: int_to_big_endian.induct)
  case (1 n)
  show ?case
  proof (cases "n = 0")
    case True
    then show ?thesis by (simp add: int_to_big_endian.simps big_endian_to_int_def)
  next
    case False
    then have "big_endian_to_int (int_to_big_endian n)
        = 256 * big_endian_to_int (int_to_big_endian (n div 256)) + unat (of_nat (n mod 256) :: byte)"
      by (subst int_to_big_endian.simps) (simp add: big_endian_to_int_snoc)
    also have "\<dots> = 256 * (n div 256) + n mod 256"
      using 1 False by (simp add: unat_byte_of_nat)
    finally show ?thesis by simp
  qed
qed

lemma int_to_big_endian_inj: "int_to_big_endian m = int_to_big_endian n \<Longrightarrow> m = n"
  by (metis big_endian_roundtrip)

lemma int_to_big_endian_length: "n < 256 ^ k \<Longrightarrow> length (int_to_big_endian n) \<le> k"
proof (induction n arbitrary: k rule: int_to_big_endian.induct)
  case (1 n)
  show ?case
  proof (cases "n = 0")
    case True
    then show ?thesis by (simp add: int_to_big_endian.simps)
  next
    case False
    then obtain k' where k: "k = Suc k'" using "1.prems" by (cases k) auto
    have "n div 256 < 256 ^ k'" using "1.prems" k by (simp add: less_mult_imp_div_less mult.commute)
    then have "length (int_to_big_endian (n div 256)) \<le> k'" using "1.IH" False by blast
    then show ?thesis using False k by (subst int_to_big_endian.simps) simp
  qed
qed

lemma int_to_big_endian_nonempty: "0 < n \<Longrightarrow> int_to_big_endian n \<noteq> []"
  by (subst int_to_big_endian.simps) simp

lemma take_payload_append:
  "take_payload is_list (length p) (p @ rest) = Some (is_list, p, rest)"
  by (simp add: take_payload_def)

lemma int_to_big_endian_hd: "0 < n \<Longrightarrow> hd (int_to_big_endian n) \<noteq> 0"
proof (induction n rule: int_to_big_endian.induct)
  case (1 n)
  show ?case
  proof (cases "n div 256 = 0")
    case True
    then have small: "n < 256" by (simp add: div_eq_0_iff)
    have "int_to_big_endian n = [of_nat n]"
      using "1.prems" True small by (simp add: int_to_big_endian.simps [of n] int_to_big_endian.simps [of 0])
    moreover have "unat (of_nat n :: byte) = n" using small by (rule unat_byte_of_nat)
    ultimately show ?thesis using "1.prems" by (auto simp: unat_eq_0 [symmetric] simp del: unat_eq_0)
  next
    case False
    then have pos: "0 < n div 256" by simp
    have "int_to_big_endian (n div 256) \<noteq> []" using pos by (rule int_to_big_endian_nonempty)
    moreover have "hd (int_to_big_endian (n div 256)) \<noteq> 0" using "1.IH" "1.prems" pos by simp
    ultimately show ?thesis using "1.prems" by (subst int_to_big_endian.simps) simp
  qed
qed

lemma long_payload_append:
  assumes "56 \<le> length p"
  shows "long_payload is_list (length (int_to_big_endian (length p))) (int_to_big_endian (length p) @ p @ rest)
     = Some (is_list, p, rest)"
proof -
  let ?ls = "int_to_big_endian (length p)"
  have pos: "0 < length p" using assms by linarith
  have ne: "?ls \<noteq> []" using pos by (rule int_to_big_endian_nonempty)
  have "take 1 (?ls @ p @ rest) = [hd ?ls]" using ne by (cases ?ls) simp_all
  then have "take 1 (?ls @ p @ rest) \<noteq> [0]" using int_to_big_endian_hd [OF pos] by simp
  then show ?thesis using assms
    by (auto simp: long_payload_def big_endian_roundtrip take_payload_append)
qed

text \<open>The header written by \<open>length_prefix\<close> is read back by \<open>split_header\<close>.\<close>

lemma short_string_append:
  assumes "\<not> (length p = 1 \<and> hd p < 128)"
  shows "short_string (length p) (p @ rest) = Some (False, p, rest)"
proof (cases "length p = 1")
  case True
  then obtain c where p: "p = [c]" by (cases p) auto
  with assms have "\<not> unat c < 128" by (simp add: word_less_nat_alt)
  with p show ?thesis by (simp add: short_string_def take_payload_def)
next
  case False
  then show ?thesis by (simp add: short_string_def take_payload_append)
qed

lemma split_header_prefix:
  assumes "length_prefix (length p) offset = Inr prefix" and "offset = 128 \<or> offset = 192"
    and "offset = 128 \<longrightarrow> \<not> (length p = 1 \<and> hd p < 128)"
  shows "split_header (prefix @ p @ rest) = Some (offset = 192, p, rest)"
proof (cases "length p < 56")
  case True
  then have prefix: "prefix = [of_nat (offset + length p)]"
    using assms(1) by (simp add: length_prefix_def)
  have "unat (of_nat (offset + length p) :: byte) = offset + length p"
    using True assms(2) by (intro unat_byte_of_nat) auto
  then show ?thesis using True assms(2,3) prefix
    by (auto simp: take_payload_append short_string_append)
next
  case False
  let ?ls = "int_to_big_endian (length p)"
  from False assms(1) have small: "length p < 256 ^ 8"
    by (auto simp: length_prefix_def split: if_splits)
  then have prefix: "prefix = of_nat (offset + 56 - 1 + length ?ls) # ?ls"
    using False assms(1) by (simp add: length_prefix_def Let_def)
  have le8: "length ?ls \<le> 8" using small by (rule int_to_big_endian_length)
  have "0 < length p" using False by linarith
  then have "?ls \<noteq> []" by (rule int_to_big_endian_nonempty)
  then have ge1: "1 \<le> length ?ls" by (simp add: Suc_le_eq)
  have "unat (of_nat (offset + 56 - 1 + length ?ls) :: byte) = offset + 55 + length ?ls"
    using le8 assms(2) by (subst unat_byte_of_nat) auto
  moreover have "56 \<le> length p" using False by simp
  ultimately show ?thesis using le8 ge1 assms(2) prefix by (auto simp: long_payload_append)
qed

lemma sequence_Inr_Cons:
  "sequence (r # rs) = Inr ys \<longleftrightarrow> (\<exists>x xs. r = Inr x \<and> sequence rs = Inr xs \<and> ys = x # xs)"
  by (auto split: sum.splits)

lemma encode_raw_nonempty: "encode_raw x = Inr bs \<Longrightarrow> bs \<noteq> []"
proof (cases x)
  case (Atom a)
  assume "encode_raw x = Inr bs"
  then show ?thesis using Atom
    by (cases a) (auto simp: length_prefix_def Let_def split: if_splits sum.splits)
next
  case (Items xs)
  assume "encode_raw x = Inr bs"
  then show ?thesis using Items
    by (auto simp: length_prefix_def Let_def split: if_splits sum.splits)
qed

text \<open>What \<open>split_header\<close> finds in front of an encoded item.\<close>

fun is_items :: "rlp_item \<Rightarrow> bool" where
  "is_items (Atom a) = False"
| "is_items (Items xs) = True"

definition payload_of :: "rlp_item \<Rightarrow> bytes \<Rightarrow> bool" where
  "payload_of x p =
     (case x of Atom a \<Rightarrow> p = a
      | Items xs \<Rightarrow> (\<exists>parts. sequence (map encode_raw xs) = Inr parts \<and> p = concat parts))"

lemma length_prefix_nonempty: "length_prefix len offset = Inr prefix \<Longrightarrow> prefix \<noteq> []"
  by (auto simp: length_prefix_def Let_def split: if_splits)

lemma split_header_encode_raw:
  assumes "encode_raw x = Inr bs"
  shows "\<exists>p. split_header (bs @ rest) = Some (is_items x, p, rest) \<and> payload_of x p
            \<and> (is_items x \<longrightarrow> length p < length bs)"
proof (cases x)
  case (Atom a)
  show ?thesis
  proof (cases "length a = 1 \<and> hd a < 128")
    case True
    then obtain b where a: "a = [b]" by (cases a) auto
    with True have small: "unat b < 128" by (simp add: word_less_nat_alt)
    have "bs = [b]" using assms Atom a True by simp
    then show ?thesis using small Atom a by (simp add: payload_of_def)
  next
    case False
    then obtain prefix where p: "length_prefix (length a) 128 = Inr prefix" "bs = prefix @ a"
      using assms Atom by (auto split: sum.splits)
    from split_header_prefix [OF p(1), of rest] False show ?thesis
      using Atom p(2) by (simp add: payload_of_def)
  qed
next
  case (Items xs)
  then obtain parts prefix where p: "sequence (map encode_raw xs) = Inr parts"
      "length_prefix (length (concat parts)) 192 = Inr prefix" "bs = prefix @ concat parts"
    using assms by (auto split: sum.splits)
  from split_header_prefix [OF p(2), of rest] length_prefix_nonempty [OF p(2)] show ?thesis
    using Items p by (simp add: payload_of_def)
qed

lemma decode_items_roundtrip:
  "sequence (map encode_raw xs) = Inr parts \<Longrightarrow> length (concat parts) < n \<Longrightarrow>
   rlp_decode_items n (concat parts) = Some xs"
proof (induction "size_list size xs" arbitrary: xs parts n rule: less_induct)
  case less
  show ?case
  proof (cases xs)
    case Nil
    then show ?thesis using less.prems by (cases n) auto
  next
    case (Cons x xs')
    then obtain e es where e: "encode_raw x = Inr e" "sequence (map encode_raw xs') = Inr es"
        "parts = e # es"
      using less.prems(1) unfolding Cons list.map sequence_Inr_Cons by blast
    obtain m where n: "n = Suc m" using less.prems(2) by (cases n) auto
    have ne: "e \<noteq> []" using e(1) by (rule encode_raw_nonempty)
    obtain p where p: "split_header (e @ concat es) = Some (is_items x, p, concat es)"
        "payload_of x p" "is_items x \<longrightarrow> length p < length e"
      using split_header_encode_raw [OF e(1), of "concat es"] by blast
    have rest: "rlp_decode_items m (concat es) = Some xs'"
    proof (rule less.hyps [OF _ e(2)])
      show "size_list size xs' < size_list size xs" using Cons by simp
      show "length (concat es) < m" using less.prems(2) n e(3) ne by (cases e) auto
    qed
    have item: "(if is_items x then map_option Items (rlp_decode_items m p) else Some (Atom p)) = Some x"
    proof (cases x)
      case (Atom a)
      then show ?thesis using p(2) by (simp add: payload_of_def)
    next
      case (Items ys)
      then obtain ps where ps: "sequence (map encode_raw ys) = Inr ps" "p = concat ps"
        using p(2) by (auto simp: payload_of_def)
      have "rlp_decode_items m (concat ps) = Some ys"
      proof (rule less.hyps [OF _ ps(1)])
        show "size_list size ys < size_list size xs" using Cons Items by simp
        show "length (concat ps) < m" using p(3) ps(2) less.prems(2) n e(3) Items by simp
      qed
      then show ?thesis using Items ps(2) by simp
    qed
    show ?thesis using n e(3) ne p(1) item rest Cons by simp
  qed
qed

lemma rlp_roundtrip: "encode_raw x = Inr bs \<Longrightarrow> rlp_decode bs = Some x"
  using decode_items_roundtrip [of "[x]" "[bs]" "Suc (length bs)"]
  by (simp add: rlp_decode_def)

lemma encode_raw_inj: "encode_raw x = Inr bs \<Longrightarrow> encode_raw y = Inr bs \<Longrightarrow> x = y"
  by (metis rlp_roundtrip option.inject)

section \<open>Transactions: signing hash and signed serialization\<close>

definition bind_err :: "py_error + 'a \<Rightarrow> ('a \<Rightarrow> py_error + 'b) \<Rightarrow> py_error + 'b" where
  "bind_err r f = (case r of Inl e \<Rightarrow> Inl e | Inr x \<Rightarrow> f x)"

definition digit_value :: "char \<Rightarrow> nat" where
  "digit_value c =
     (let n = (of_char c :: nat)
      in if 48 \<le> n \<and> n \<le> 57 then n - 48
         else if 97 \<le> n \<and> n \<le> 122 then n - 87
         else if 65 \<le> n \<and> n \<le> 90 then n - 55
         else 37)"

definition Py_ISSPACE :: "char \<Rightarrow> bool" where
  "Py_ISSPACE c = ((9 \<le> (of_char c :: nat) \<and> (of_char c :: nat) \<le> 13) \<or> c = CHR '' '')"

fun bytes_fromhex :: "string \<Rightarrow> py_error + bytes" where
  "bytes_fromhex [] = Inr []"
| "bytes_fromhex [c] =
     (if Py_ISSPACE c then Inr [] else Inl ValueError)"
| "bytes_fromhex (c # d # ds) =
     (if Py_ISSPACE c then bytes_fromhex (d # ds)
      else if 16 \<le> digit_value c \<or> 16 \<le> digit_value d then Inl ValueError
      else bind_err (bytes_fromhex ds) (\<lambda>bs. Inr (of_nat (16 * digit_value c + digit_value d) # bs)))"

definition int_space :: "char \<Rightarrow> bool" where
  "int_space c = (Py_ISSPACE c \<or> c = CHR 0x85 \<or> c = CHR 0xA0)"

definition strip_sign :: "string \<Rightarrow> bool \<times> string" where
  "strip_sign s =
     (case s of
        [] \<Rightarrow> (False, s)
      | c # r \<Rightarrow> if c = CHR ''+'' then (False, r) else if c = CHR ''-'' then (True, r) else (False, s))"

definition strip_prefix16 :: "string \<Rightarrow> string" where
  "strip_prefix16 s =
     (case s of
        c # x # r \<Rightarrow>
          if c = CHR ''0'' \<and> (x = CHR ''x'' \<or> x = CHR ''X'')
          then (case r of [] \<Rightarrow> r | u # r' \<Rightarrow> if u = CHR ''_'' then r' else r)
          else s
      | _ \<Rightarrow> s)"

fun single_underscores :: "string \<Rightarrow> bool" where
  "single_underscores [] = True"
| "single_underscores [c] = (c \<noteq> CHR ''_'')"
| "single_underscores (c # d # ds) =
     (\<not> (c = CHR ''_'' \<and> d = CHR ''_'') \<and> single_underscores (d # ds))"

definition int_base16 :: "string \<Rightarrow> py_error + int" where
  "int_base16 x =
     (let (neg, s) = strip_sign (dropWhile int_space x);
          s = strip_prefix16 s;
          run = takeWhile (\<lambda>c. digit_value c < 16 \<or> c = CHR ''_'') s;
          rest = dropWhile (\<lambda>c. digit_value c < 16 \<or> c = CHR ''_'') s;
          n = foldl (\<lambda>a c. 16 * a + int (digit_value c)) 0 (filter (\<lambda>c. c \<noteq> CHR ''_'') run)
      in if run = [] \<or> hd run = CHR ''_'' \<or> \<not> single_underscores run
            \<or> dropWhile int_space rest \<noteq> []
         then Inl ValueError
         else Inr (if neg then - n else n))"

definition int_to_bytes :: "int \<Rightarrow> nat \<Rightarrow> py_error + bytes" where
  "int_to_bytes i len =
     (if i < 0 \<or> len < length (int_to_big_endian (nat i)) then Inl OverflowError
      else Inr (replicate (len - length (int_to_big_endian (nat i))) 0 @ int_to_big_endian (nat i)))"

record transaction =
  tx_to :: "string option"
  tx_value :: int
  tx_data :: string
  tx_gas :: int
  tx_maxFeePerGas :: int
  tx_maxPriorityFeePerGas :: int
  tx_nonce :: int
  tx_chainId :: int
  tx_type :: int

record signature =
  sig_r :: string
  sig_s :: string
  sig_recid :: int

definition address_bytes :: "string option \<Rightarrow> py_error + bytes" where
  "address_bytes a = (case a of None \<Rightarrow> Inl TypeError | Some s \<Rightarrow> bytes_fromhex (drop 2 s))"

text \<open>
  The hexadecimal text that \<open>bytes.fromhex\<close> reads: white space is skipped and the
  digits \<open>A\<close> to \<open>F\<close> count as \<open>a\<close> to \<open>f\<close>.
\<close>

definition ascii_lower :: "char \<Rightarrow> char" where
  "ascii_lower c =
     (if 65 \<le> (of_char c :: nat) \<and> (of_char c :: nat) \<le> 90 then char_of (of_char c + 32 :: nat) else c)"

definition hex_text :: "string \<Rightarrow> string" where
  "hex_text s = map ascii_lower (filter (\<lambda>c. \<not> Py_ISSPACE c) s)"

definition signing_payload :: "transaction \<Rightarrow> py_error + bytes" where
  "signing_payload tx =
     bind_err (address_bytes (tx_to tx)) (\<lambda>to_bytes.
     bind_err (bytes_fromhex (drop 2 (tx_data tx))) (\<lambda>data_bytes.
     bind_err (rlp_encode (RList
        [RInt (tx_chainId tx), RInt (tx_nonce tx), RInt (tx_maxPriorityFeePerGas tx),
         RInt (tx_maxFeePerGas tx), RInt (tx_gas tx), RBytes to_bytes, RInt (tx_value tx),
         RBytes data_bytes, RList []])) (\<lambda>enc.
     Inr (0x02 # enc))))"

definition compute_tx_hash :: "(bytes \<Rightarrow> bytes) \<Rightarrow> transaction \<Rightarrow> py_error + bytes" where
  "compute_tx_hash keccak tx = bind_err (signing_payload tx) (\<lambda>encoded. Inr (keccak encoded))"

definition serialize_signed_tx :: "transaction \<Rightarrow> signature \<Rightarrow> py_error + bytes" where
  "serialize_signed_tx tx sg =
     bind_err (int_base16 (sig_r sg)) (\<lambda>r.
     bind_err (int_base16 (sig_s sg)) (\<lambda>s.
     bind_err (address_bytes (tx_to tx)) (\<lambda>to_bytes.
     bind_err (bytes_fromhex (drop 2 (tx_data tx))) (\<lambda>data_bytes.
     bind_err (int_to_bytes r 32) (\<lambda>r_bytes.
     bind_err (int_to_bytes s 32) (\<lambda>s_bytes.
     bind_err (rlp_encode (RList
        [RInt (tx_chainId tx), RInt (tx_nonce tx), RInt (tx_maxPriorityFeePerGas tx),
         RInt (tx_maxFeePerGas tx), RInt (tx_gas tx), RBytes to_bytes, RInt (tx_value tx),
         RBytes data_bytes, RList [], RInt (sig_recid sg), RBytes r_bytes, RBytes s_bytes])) (\<lambda>enc.
     Inr (0x02 # enc))))))))"


definition int_item :: "int \<Rightarrow> rlp_item" where
  "int_item i = Atom (int_to_big_endian (nat i))"

definition unsigned_items :: "transaction \<Rightarrow> bytes \<Rightarrow> bytes \<Rightarrow> rlp_item list" where
  "unsigned_items tx to_bytes data_bytes =
     [int_item (tx_chainId tx), int_item (tx_nonce tx), int_item (tx_maxPriorityFeePerGas tx),
      int_item (tx_maxFeePerGas tx), int_item (tx_gas tx), Atom to_bytes, int_item (tx_value tx),
      Atom data_bytes, Items []]"

definition signed_items :: "transaction \<Rightarrow> bytes \<Rightarrow> bytes \<Rightarrow> int \<Rightarrow> bytes \<Rightarrow> bytes \<Rightarrow> rlp_item list" where
  "signed_items tx to_bytes data_bytes v r_bytes s_bytes =
     unsigned_items tx to_bytes data_bytes @ [int_item v, Atom r_bytes, Atom s_bytes]"

text \<open>
  The order of the secp256k1 group; a signature is in low-s form when its \<open>s\<close> is at
  most half of it.
\<close>

definition secp256k1_n :: int where
  "secp256k1_n = 0xFFFFFFFFFFFFFFFFFFFFFFFFFFFFFFFEBAAEDCE6AF48A03BBFD25E8CD0364141"

text \<open>A transaction and a signature with \<open>s = n - 1\<close> (high-s) to evaluate the model on.\<close>

definition example_tx :: transaction where
  "example_tx = \<lparr>tx_to = Some ''0x00000000000000000000000000000000000000aa'', tx_value = 0,
     tx_data = ''0x1234'', tx_gas = 200000, tx_maxFeePerGas = 3000000000,
     tx_maxPriorityFeePerGas = 1000000000, tx_nonce = 7, tx_chainId = 84532, tx_type = 2\<rparr>"

definition example_high_s :: signature where
  "example_high_s = \<lparr>sig_r = ''0x01'',
     sig_s = ''fffffffffffffffffffffffffffffffebaaedce6af48a03bbfd25e8cd0364140'', sig_recid = 1\<rparr>"

definition example_payload :: bytes where
  "example_payload = [2, 237, 131, 1, 74, 52, 7, 132, 59, 154, 202, 0, 132, 178, 208,
           94, 0, 131, 3, 13, 64, 148, 0, 0, 0, 0, 0, 0, 0, 0, 0, 0, 0, 0,
           0, 0, 0, 0, 0, 0, 0, 170, 128, 130, 18, 52, 192]"

definition example_payload_8 :: bytes where
  "example_payload_8 = [2, 237, 131, 1, 74, 52, 8, 132, 59, 154, 202, 0, 132, 178, 208,
           94, 0, 131, 3, 13, 64, 148, 0, 0, 0, 0, 0, 0, 0, 0, 0, 0, 0, 0,
           0, 0, 0, 0, 0, 0, 0, 170, 128, 130, 18, 52, 192]"

definition example_items :: "rlp_item list" where
  "example_items =
     [Atom [1, 74, 52], Atom [7], Atom [59, 154, 202, 0], Atom [178, 208, 94, 0], Atom [3, 13, 64],
      Atom [0, 0, 0, 0, 0, 0, 0, 0, 0, 0, 0, 0, 0, 0, 0, 0, 0, 0, 0, 170], Atom [],
      Atom [18, 52], Items []]"

definition example_s_bytes :: bytes where
  "example_s_bytes = [255, 255, 255, 255, 255, 255, 255, 255, 255, 255, 255, 255, 255, 255, 255,
     254, 186, 174, 220, 230, 175, 72, 160, 59, 191, 210, 94, 140, 208, 54, 65, 64]"

definition example_signed :: bytes where
  "example_signed = [2, 248, 112, 131, 1, 74, 52, 7, 132, 59, 154, 202, 0, 132, 178, 208, 94, 0,
     131, 3, 13, 64, 148, 0, 0, 0, 0, 0, 0, 0, 0, 0, 0, 0, 0, 0, 0, 0, 0, 0, 0, 0, 170, 128,
     130, 18, 52, 192, 1, 160, 0, 0, 0, 0, 0, 0, 0, 0, 0, 0, 0, 0, 0, 0, 0, 0, 0, 0, 0, 0, 0, 0,
     0, 0, 0, 0, 0, 0, 0, 0, 0, 1, 160] @ example_s_bytes"

text \<open>What \<open>bytes.fromhex\<close> returns is written by \<open>bytes.hex\<close> as the text that was read.\<close>

lemma hex_digit_of_digit_value:
  assumes "digit_value c < 16"
  shows "hex_digit (digit_value c) = ascii_lower c"
proof -
  define n where "n = (of_char c :: nat)"
  have c: "c = char_of n" by (simp add: n_def)
  have d: "\<forall>n \<in> set [48..<58]. hex_digit (n - 48) = char_of n" by code_simp
  have l: "\<forall>n \<in> set [97..<103]. hex_digit (n - 87) = char_of n" by code_simp
  have u: "\<forall>n \<in> set [65..<71]. hex_digit (n - 55) = char_of (n + 32)" by code_simp
  consider "48 \<le> n" "n \<le> 57" | "97 \<le> n" "n \<le> 102" | "65 \<le> n" "n \<le> 70"
    using assms unfolding digit_value_def Let_def n_def [symmetric]
    by (auto split: if_splits)
  then show ?thesis
  proof cases
    case 1
    then have "n \<in> set [48..<58]" unfolding set_upt by auto
    with d have "hex_digit (n - 48) = char_of n" by (rule bspec)
    then show ?thesis using 1 by (simp add: digit_value_def ascii_lower_def n_def [symmetric] c [symmetric])
  next
    case 2
    then have "n \<in> set [97..<103]" unfolding set_upt by auto
    with l have "hex_digit (n - 87) = char_of n" by (rule bspec)
    then show ?thesis using 2 by (simp add: digit_value_def ascii_lower_def n_def [symmetric] c [symmetric])
  next
    case 3
    then have "n \<in> set [65..<71]" unfolding set_upt by auto
    with u have "hex_digit (n - 55) = char_of (n + 32)" by (rule bspec)
    then show ?thesis using 3 by (simp add: digit_value_def ascii_lower_def n_def [symmetric])
  qed
qed

lemma hex_byte_of_digits:
  assumes "a < 16" "b < 16"
  shows "hex_byte (of_nat (16 * a + b)) = [hex_digit a, hex_digit b]"
proof -
  have "16 * a + b < 256" using assms by simp
  then have "unat (of_nat (16 * a + b) :: byte) = 16 * a + b" by (rule unat_byte_of_nat)
  then show ?thesis using assms by (simp add: hex_byte_def)
qed

lemma bytes_fromhex_hex: "bytes_fromhex s = Inr bs \<Longrightarrow> bytes_hex bs = hex_text s"
proof (induction s arbitrary: bs rule: bytes_fromhex.induct)
  case 1
  then show ?case by (simp add: bytes_hex_def hex_text_def)
next
  case (2 c)
  then show ?case by (simp add: bytes_hex_def hex_text_def split: if_splits)
next
  case (3 c d ds)
  show ?case
  proof (cases "Py_ISSPACE c")
    case True
    with 3 show ?thesis by (simp add: hex_text_def)
  next
    case False
    with "3.prems" have digits: "digit_value c < 16" "digit_value d < 16"
      by (auto split: if_splits)
    with "3.prems" False obtain rest where rest: "bytes_fromhex ds = Inr rest"
        "bs = of_nat (16 * digit_value c + digit_value d) # rest"
      by (auto simp: bind_err_def split: sum.splits)
    have nd: "\<not> Py_ISSPACE d" using digits(2) by (auto simp: Py_ISSPACE_def digit_value_def Let_def split: if_splits)
    have tl: "bytes_hex rest = hex_text ds" using "3.IH"(2) False digits rest(1) by simp
    have "hex_byte (of_nat (16 * digit_value c + digit_value d)) = [ascii_lower c, ascii_lower d]"
      using hex_byte_of_digits [OF digits]
      by (simp only: hex_digit_of_digit_value [OF digits(1)] hex_digit_of_digit_value [OF digits(2)])
    then have "bytes_hex bs = [ascii_lower c, ascii_lower d] @ bytes_hex rest"
      unfolding rest(2) bytes_hex_def by (simp only: list.map concat.simps)
    moreover have "hex_text (c # d # ds) = [ascii_lower c, ascii_lower d] @ hex_text ds"
      using False nd by (simp add: hex_text_def)
    ultimately show ?thesis using tl by simp
  qed
qed

lemma address_bytes_hex:
  "address_bytes a = Inr bs \<Longrightarrow> \<exists>addr. a = Some addr \<and> bytes_hex bs = hex_text (drop 2 addr)"
  by (cases a) (auto simp: address_bytes_def dest: bytes_fromhex_hex)

lemma serialize_RInt: "serialize (RInt i) = Inr x \<longleftrightarrow> 0 \<le> i \<and> x = int_item i"
  by (auto simp: int_item_def)

lemma bind_err_Inr: "bind_err r f = Inr y \<longleftrightarrow> (\<exists>x. r = Inr x \<and> f x = Inr y)"
  by (cases r) (simp_all add: bind_err_def)

lemma sequence_Inr_Nil: "sequence [] = Inr ys \<longleftrightarrow> ys = []"
  by auto

lemma serialize_RList:
  "serialize (RList xs) = Inr y \<longleftrightarrow> (\<exists>ys. sequence (map serialize xs) = Inr ys \<and> y = Items ys)"
  by (auto split: sum.splits)

lemma rlp_encode_decode: "rlp_encode obj = Inr enc \<Longrightarrow> \<exists>item. serialize obj = Inr item \<and> rlp_decode enc = Some item"
  by (auto simp: rlp_encode_def rlp_roundtrip split: sum.splits)

lemma signing_payload_decode:
  assumes "signing_payload tx = Inr e"
  shows "\<exists>to_bytes data_bytes enc.
           e = 0x02 # enc
         \<and> address_bytes (tx_to tx) = Inr to_bytes
         \<and> bytes_fromhex (drop 2 (tx_data tx)) = Inr data_bytes
         \<and> rlp_decode enc = Some (Items (unsigned_items tx to_bytes data_bytes))
         \<and> 0 \<le> tx_nonce tx"
proof -
  from assms obtain to_bytes data_bytes enc where
    a: "address_bytes (tx_to tx) = Inr to_bytes"
    and d: "bytes_fromhex (drop 2 (tx_data tx)) = Inr data_bytes"
    and enc: "rlp_encode (RList
        [RInt (tx_chainId tx), RInt (tx_nonce tx), RInt (tx_maxPriorityFeePerGas tx),
         RInt (tx_maxFeePerGas tx), RInt (tx_gas tx), RBytes to_bytes, RInt (tx_value tx),
         RBytes data_bytes, RList []]) = Inr enc"
    and e: "e = 0x02 # enc"
    unfolding signing_payload_def bind_err_Inr by auto
  from rlp_encode_decode [OF enc] obtain item where
    item: "serialize (RList
        [RInt (tx_chainId tx), RInt (tx_nonce tx), RInt (tx_maxPriorityFeePerGas tx),
         RInt (tx_maxFeePerGas tx), RInt (tx_gas tx), RBytes to_bytes, RInt (tx_value tx),
         RBytes data_bytes, RList []]) = Inr item"
    and dec: "rlp_decode enc = Some item" by blast
  from item have "item = Items (unsigned_items tx to_bytes data_bytes) \<and> 0 \<le> tx_nonce tx"
    unfolding serialize_RList list.map sequence_Inr_Cons sequence_Inr_Nil serialize_RInt
      unsigned_items_def
    by auto
  then show ?thesis using a d dec e by blast
qed

lemma int_item_inj: "0 \<le> i \<Longrightarrow> 0 \<le> j \<Longrightarrow> int_item i = int_item j \<Longrightarrow> i = j"
  by (auto simp: int_item_def dest: int_to_big_endian_inj)

lemma signing_payload_nonce:
  assumes "signing_payload tx = Inr e" and "signing_payload (tx\<lparr>tx_nonce := n\<rparr>) = Inr e'"
    and "n \<noteq> tx_nonce tx"
  shows "e \<noteq> e'"
proof
  assume eq: "e = e'"
  from signing_payload_decode [OF assms(1)] obtain t d enc where
    1: "e = 0x02 # enc" "address_bytes (tx_to tx) = Inr t" "bytes_fromhex (drop 2 (tx_data tx)) = Inr d"
       "rlp_decode enc = Some (Items (unsigned_items tx t d))" "0 \<le> tx_nonce tx" by blast
  from signing_payload_decode [OF assms(2)] obtain t' d' enc' where
    2: "e' = 0x02 # enc'"
       "rlp_decode enc' = Some (Items (unsigned_items (tx\<lparr>tx_nonce := n\<rparr>) t' d'))" "0 \<le> n" by auto
  from eq 1(1) 2(1) have "enc = enc'" by simp
  with 1(4) 2(2) have "int_item (tx_nonce tx) = int_item n"
    by (simp add: unsigned_items_def)
  with 1(5) 2(3) assms(3) show False by (auto dest: int_item_inj)
qed

lemmas tx_eval = bind_err_def digit_value_def Py_ISSPACE_def int_space_def strip_sign_def
  strip_prefix16_def int_base16_def int_to_bytes_def address_bytes_def signing_payload_def
  compute_tx_hash_def serialize_signed_tx_def rlp_encode_def length_prefix_def
  int_to_big_endian.simps

lemma example_tx_payload:
  "signing_payload example_tx = Inr example_payload"
  by (simp add: tx_eval example_tx_def example_payload_def)

lemma example_tx_payload_8:
  "signing_payload (example_tx\<lparr>tx_nonce := 8\<rparr>) = Inr example_payload_8"
  by (simp add: tx_eval example_tx_def example_payload_8_def)

lemma hex_digit_inj: "a < 16 \<Longrightarrow> b < 16 \<Longrightarrow> hex_digit a = hex_digit b \<Longrightarrow> a = b"
proof -
  have "\<forall>a \<in> set [0..<16]. \<forall>b \<in> set [0..<16]. hex_digit a = hex_digit b \<longrightarrow> a = b"
    by code_simp
  then show "a < 16 \<Longrightarrow> b < 16 \<Longrightarrow> hex_digit a = hex_digit b \<Longrightarrow> a = b" by simp
qed

lemma hex_byte_inj: "hex_byte a = hex_byte b \<Longrightarrow> a = b"
proof -
  assume "hex_byte a = hex_byte b"
  then have h: "hex_digit (unat a div 16) = hex_digit (unat b div 16)"
     "hex_digit (unat a mod 16) = hex_digit (unat b mod 16)" by (simp_all add: hex_byte_def)
  have "unat x < 256" for x :: byte
    using unsigned_less [of x, where 'a = nat] by simp
  then have lt: "unat x div 16 < 16" "unat x mod 16 < 16" for x :: byte
    using less_mult_imp_div_less [of "unat x" 16 16] by simp_all
  have "unat a div 16 = unat b div 16" using h(1) lt by (intro hex_digit_inj)
  moreover have "unat a mod 16 = unat b mod 16" using h(2) lt by (intro hex_digit_inj)
  ultimately have "unat a = unat b" by (metis div_mult_mod_eq)
  then show "a = b" by (simp add: word_unat_eq_iff)
qed

lemma bytes_hex_inj: "bytes_hex xs = bytes_hex ys \<Longrightarrow> xs = ys"
proof (induction xs arbitrary: ys)
  case Nil
  then show ?case by (cases ys) (simp_all add: bytes_hex_def hex_byte_def)
next
  case (Cons x xs)
  then obtain y t where ys: "ys = y # t" by (cases ys) (auto simp: bytes_hex_def hex_byte_def)
  with Cons.prems have "hex_byte x = hex_byte y" "bytes_hex xs = bytes_hex t"
    by (simp_all add: bytes_hex_def hex_byte_def)
  with Cons.IH ys show ?case by (auto dest: hex_byte_inj)
qed

lemma example_hex:
  "hex_text ''00000000000000000000000000000000000000aa''
     = bytes_hex [0, 0, 0, 0, 0, 0, 0, 0, 0, 0, 0, 0, 0, 0, 0, 0, 0, 0, 0, 170]"
  "hex_text ''1234'' = bytes_hex [18, 52]"
  by (simp_all add: hex_text_def ascii_lower_def Py_ISSPACE_def bytes_hex_def hex_byte_def hex_digit_def)

lemma example_unsigned_items:
  "unsigned_items example_tx [0, 0, 0, 0, 0, 0, 0, 0, 0, 0, 0, 0, 0, 0, 0, 0, 0, 0, 0, 170] [18, 52]
     = example_items"
  by (simp add: unsigned_items_def example_items_def example_tx_def int_item_def
      int_to_big_endian.simps)

lemma compute_tx_hash_Inr:
  "compute_tx_hash keccak tx = Inr d \<longleftrightarrow> (\<exists>e. signing_payload tx = Inr e \<and> d = keccak e)"
  by (auto simp: compute_tx_hash_def bind_err_Inr)

text \<open>
  Claim C3.  \<open>compute_tx_hash\<close> reads the transaction only.  When it returns, the
  digest is the Keccak-256 hash of a byte string that starts with the type byte
  \<open>0x02\<close> and continues with an RLP encoding that decodes to the ordered list
  chainId, nonce, maxPriorityFeePerGas, maxFeePerGas, gas, to, value, data and the
  empty access list; the \<open>to\<close> and \<open>data\<close> elements are the bytes whose hexadecimal
  writing is the text of \<open>tx['to']\<close> and \<open>tx['data']\<close> after the first two characters.
  The \<open>type\<close> entry of the dictionary does not reach the digest.  A transaction that
  differs in the nonce alone is hashed from a different byte string, so the digests
  differ unless Keccak-256 collides on these two strings.
\<close>

theorem C3_signing_digest:
  assumes "compute_tx_hash keccak tx = Inr d"
  shows "(\<exists>encoded addr to_bytes data_bytes.
           signing_payload tx = Inr encoded \<and> d = keccak encoded
         \<and> hd encoded = 0x02
         \<and> tx_to tx = Some addr \<and> bytes_hex to_bytes = hex_text (drop 2 addr)
         \<and> bytes_hex data_bytes = hex_text (drop 2 (tx_data tx))
         \<and> rlp_decode (tl encoded) = Some (Items (unsigned_items tx to_bytes data_bytes)))
       \<and> compute_tx_hash keccak (tx\<lparr>tx_type := t\<rparr>) = Inr d
       \<and> (n \<noteq> tx_nonce tx \<longrightarrow> compute_tx_hash keccak (tx\<lparr>tx_nonce := n\<rparr>) = Inr d' \<longrightarrow>
            (\<exists>encoded encoded'.
                signing_payload tx = Inr encoded \<and> d = keccak encoded
              \<and> signing_payload (tx\<lparr>tx_nonce := n\<rparr>) = Inr encoded' \<and> d' = keccak encoded'
              \<and> encoded' \<noteq> encoded \<and> (inj_on keccak {encoded, encoded'} \<longrightarrow> d' \<noteq> d)))"
proof -
  from assms obtain e where e: "signing_payload tx = Inr e" "d = keccak e"
    by (auto simp: compute_tx_hash_Inr)
  from signing_payload_decode [OF e(1)] obtain to_bytes data_bytes enc where
    dec: "e = 0x02 # enc" "address_bytes (tx_to tx) = Inr to_bytes"
      "bytes_fromhex (drop 2 (tx_data tx)) = Inr data_bytes"
      "rlp_decode enc = Some (Items (unsigned_items tx to_bytes data_bytes))" by blast
  from address_bytes_hex [OF dec(2)] obtain addr where
    addr: "tx_to tx = Some addr" "bytes_hex to_bytes = hex_text (drop 2 addr)" by blast
  note data = bytes_fromhex_hex [OF dec(3)]
  have struct: "\<exists>encoded addr to_bytes data_bytes.
           signing_payload tx = Inr encoded \<and> d = keccak encoded
         \<and> hd encoded = 0x02
         \<and> tx_to tx = Some addr \<and> bytes_hex to_bytes = hex_text (drop 2 addr)
         \<and> bytes_hex data_bytes = hex_text (drop 2 (tx_data tx))
         \<and> rlp_decode (tl encoded) = Some (Items (unsigned_items tx to_bytes data_bytes))"
    using e dec(1,4) addr data
    by (intro exI [of _ e] exI [of _ addr] exI [of _ to_bytes] exI [of _ data_bytes]) simp
  have ty: "compute_tx_hash keccak (tx\<lparr>tx_type := t\<rparr>) = Inr d"
    using assms by (simp add: compute_tx_hash_def signing_payload_def)
  have nonce: "\<exists>encoded encoded'. signing_payload tx = Inr encoded \<and> d = keccak encoded
       \<and> signing_payload (tx\<lparr>tx_nonce := n\<rparr>) = Inr encoded' \<and> d' = keccak encoded'
       \<and> encoded' \<noteq> encoded \<and> (inj_on keccak {encoded, encoded'} \<longrightarrow> d' \<noteq> d)"
    if "n \<noteq> tx_nonce tx" "compute_tx_hash keccak (tx\<lparr>tx_nonce := n\<rparr>) = Inr d'"
  proof -
    from that(2) obtain e' where e': "signing_payload (tx\<lparr>tx_nonce := n\<rparr>) = Inr e'" "d' = keccak e'"
      by (auto simp: compute_tx_hash_Inr)
    have ne: "e \<noteq> e'" using e(1) e'(1) that(1) by (rule signing_payload_nonce)
    then have "inj_on keccak {e, e'} \<longrightarrow> d' \<noteq> d"
      using e(2) e'(2) by (auto simp: inj_on_def)
    with e e' ne show ?thesis by (intro exI [of _ e] exI [of _ e']) auto
  qed
  show ?thesis using struct ty nonce by blast
qed

theorem C3_signing_digest_witness:
  "compute_tx_hash (\<lambda>bs. bs) example_tx = Inr example_payload
   \<and> hd example_payload = 0x02
   \<and> rlp_decode (tl example_payload) = Some (Items example_items)
   \<and> compute_tx_hash (\<lambda>bs. bs) (example_tx\<lparr>tx_type := 0\<rparr>) = Inr example_payload
   \<and> compute_tx_hash (\<lambda>bs. bs) (example_tx\<lparr>tx_nonce := 8\<rparr>) = Inr example_payload_8
   \<and> example_payload_8 \<noteq> example_payload"
proof -
  have d: "compute_tx_hash (\<lambda>bs. bs) example_tx = Inr example_payload"
    by (simp add: compute_tx_hash_def example_tx_payload bind_err_def)
  have d8: "compute_tx_hash (\<lambda>bs. bs) (example_tx\<lparr>tx_nonce := 8\<rparr>) = Inr example_payload_8"
    by (simp add: compute_tx_hash_def example_tx_payload_8 bind_err_def)
  have n8: "(8::int) \<noteq> tx_nonce example_tx" by (simp add: example_tx_def)
  note inst = C3_signing_digest [OF d, of 0 8 example_payload_8]
  from inst [THEN conjunct1] obtain encoded addr to_bytes data_bytes where
    s: "signing_payload example_tx = Inr encoded" "hd encoded = 0x02"
       "tx_to example_tx = Some addr" "bytes_hex to_bytes = hex_text (drop 2 addr)"
       "bytes_hex data_bytes = hex_text (drop 2 (tx_data example_tx))"
       "rlp_decode (tl encoded) = Some (Items (unsigned_items example_tx to_bytes data_bytes))"
    by (elim exE conjE)
  have enc: "encoded = example_payload" using s(1) unfolding example_tx_payload by simp
  have "addr = ''0x00000000000000000000000000000000000000aa''"
    using s(3) by (simp add: example_tx_def)
  then have "bytes_hex to_bytes = hex_text ''00000000000000000000000000000000000000aa''"
    using s(4) by simp
  then have "bytes_hex to_bytes = bytes_hex [0, 0, 0, 0, 0, 0, 0, 0, 0, 0, 0, 0, 0, 0, 0, 0, 0, 0, 0, 170]"
    by (simp only: example_hex)
  then have t: "to_bytes = [0, 0, 0, 0, 0, 0, 0, 0, 0, 0, 0, 0, 0, 0, 0, 0, 0, 0, 0, 170]"
    by (rule bytes_hex_inj)
  have "bytes_hex data_bytes = bytes_hex [18, 52]"
    using s(5) by (simp add: example_tx_def example_hex)
  then have dt: "data_bytes = [18, 52]" by (rule bytes_hex_inj)
  have items: "unsigned_items example_tx to_bytes data_bytes = example_items"
    unfolding t dt by (rule example_unsigned_items)
  from inst [THEN conjunct2, THEN conjunct2, rule_format, OF n8 d8]
  obtain e e' where e: "signing_payload example_tx = Inr e"
    and e': "signing_payload (example_tx\<lparr>tx_nonce := 8\<rparr>) = Inr e'"
    and ne: "e' \<noteq> e"
    by (elim exE conjE)
  have "e = example_payload" using e unfolding example_tx_payload by simp
  moreover have "e' = example_payload_8" using e' unfolding example_tx_payload_8 by simp
  ultimately have diff: "example_payload_8 \<noteq> example_payload" using ne by simp
  show ?thesis
    using d d8 diff s(2,6) inst [THEN conjunct2, THEN conjunct1] unfolding enc items by simp
qed

subsection \<open>The signed serialization\<close>

lemma big_endian_to_int_zeros: "big_endian_to_int (replicate k 0 @ bs) = big_endian_to_int bs"
  by (induction k) (simp_all add: big_endian_to_int_def)

lemma int_to_bytes_Inr:
  assumes "int_to_bytes i len = Inr bs"
  shows "0 \<le> i \<and> length bs = len \<and> int (big_endian_to_int bs) = i"
  using assms
  by (auto simp: int_to_bytes_def big_endian_to_int_zeros big_endian_roundtrip split: if_splits)


lemma serialize_RBytes: "serialize (RBytes bs) = Inr x \<longleftrightarrow> x = Atom bs"
  by auto

lemma serialize_signed_tx_decode:
  assumes "serialize_signed_tx tx sg = Inr out"
  shows "\<exists>r s to_bytes data_bytes r_bytes s_bytes enc.
           int_base16 (sig_r sg) = Inr r \<and> int_base16 (sig_s sg) = Inr s
         \<and> address_bytes (tx_to tx) = Inr to_bytes
         \<and> bytes_fromhex (drop 2 (tx_data tx)) = Inr data_bytes
         \<and> out = 0x02 # enc
         \<and> rlp_decode enc
             = Some (Items (signed_items tx to_bytes data_bytes (sig_recid sg) r_bytes s_bytes))
         \<and> length r_bytes = 32 \<and> int (big_endian_to_int r_bytes) = r
         \<and> length s_bytes = 32 \<and> int (big_endian_to_int s_bytes) = s"
proof -
  from assms obtain r s to_bytes data_bytes r_bytes s_bytes enc where
    r: "int_base16 (sig_r sg) = Inr r" and s: "int_base16 (sig_s sg) = Inr s"
    and a: "address_bytes (tx_to tx) = Inr to_bytes"
    and d: "bytes_fromhex (drop 2 (tx_data tx)) = Inr data_bytes"
    and rb: "int_to_bytes r 32 = Inr r_bytes" and sb: "int_to_bytes s 32 = Inr s_bytes"
    and enc: "rlp_encode (RList
        [RInt (tx_chainId tx), RInt (tx_nonce tx), RInt (tx_maxPriorityFeePerGas tx),
         RInt (tx_maxFeePerGas tx), RInt (tx_gas tx), RBytes to_bytes, RInt (tx_value tx),
         RBytes data_bytes, RList [], RInt (sig_recid sg), RBytes r_bytes, RBytes s_bytes]) = Inr enc"
    and out: "out = 0x02 # enc"
    unfolding serialize_signed_tx_def bind_err_Inr by auto
  from rlp_encode_decode [OF enc] obtain item where
    item: "serialize (RList
        [RInt (tx_chainId tx), RInt (tx_nonce tx), RInt (tx_maxPriorityFeePerGas tx),
         RInt (tx_maxFeePerGas tx), RInt (tx_gas tx), RBytes to_bytes, RInt (tx_value tx),
         RBytes data_bytes, RList [], RInt (sig_recid sg), RBytes r_bytes, RBytes s_bytes]) = Inr item"
    and dec: "rlp_decode enc = Some item" by blast
  from item have "item = Items (signed_items tx to_bytes data_bytes (sig_recid sg) r_bytes s_bytes)"
    unfolding serialize_RList list.map sequence_Inr_Cons sequence_Inr_Nil serialize_RInt
      serialize_RBytes unsigned_items_def signed_items_def
    by auto
  with dec r s a d out int_to_bytes_Inr [OF rb] int_to_bytes_Inr [OF sb] show ?thesis by blast
qed

lemma example_s: "int_base16 (sig_s example_high_s) = Inr (secp256k1_n - 1)"
  by (simp add: example_high_s_def secp256k1_n_def int_base16_def strip_sign_def strip_prefix16_def
      int_space_def Py_ISSPACE_def digit_value_def)

lemma replicate_numeral: "replicate (numeral k) x = x # replicate (pred_numeral k) x"
  by (simp add: numeral_eq_Suc)

lemma example_serializes: "serialize_signed_tx example_tx example_high_s = Inr example_signed"
  by (simp add: tx_eval example_tx_def example_high_s_def example_signed_def example_s_bytes_def
      replicate_numeral)

lemma example_signed_decodes:
  "rlp_decode (tl example_signed)
     = Some (Items (example_items @ [Atom [1], Atom (replicate 31 0 @ [1]), Atom example_s_bytes]))"
proof -
  have "encode_raw (Items (example_items @ [Atom [1], Atom (replicate 31 0 @ [1]), Atom example_s_bytes]))
      = Inr (tl example_signed)"
    by (simp add: example_items_def example_signed_def example_s_bytes_def length_prefix_def
        int_to_big_endian.simps replicate_numeral)
  then show ?thesis by (rule rlp_roundtrip)
qed

lemma example_s_value: "int (big_endian_to_int example_s_bytes) = secp256k1_n - 1"
  by (simp add: example_s_bytes_def big_endian_to_int_def secp256k1_n_def)

text \<open>
  Claim C4, as stated, fails: \<open>serialize_signed_tx\<close> never compares \<open>s\<close> with the
  group order.  For the signature with \<open>s = n - 1\<close> and \<open>recid = 1\<close> the encoded
  transaction carries that same high \<open>s\<close> and that same \<open>recid\<close>.
\<close>

theorem C4_high_s_counterexample:
  "serialize_signed_tx example_tx example_high_s = Inr example_signed
   \<and> rlp_decode (tl example_signed)
       = Some (Items (example_items @ [Atom [1], Atom (replicate 31 0 @ [1]), Atom example_s_bytes]))
   \<and> int (big_endian_to_int example_s_bytes) = secp256k1_n - 1
   \<and> secp256k1_n div 2 < secp256k1_n - 1"
proof -
  have "secp256k1_n div 2 < secp256k1_n - 1" by (simp add: secp256k1_n_def)
  then show ?thesis
    using example_serializes example_signed_decodes example_s_value by simp
qed

text \<open>
  Claim C4, amended.  \<open>serialize_signed_tx\<close> encodes the signature as the oracle
  returned it: after the type byte \<open>0x02\<close> comes the RLP list of the nine unsigned
  fields (with \<open>to\<close> and \<open>data\<close> the bytes written by the hexadecimal text of
  \<open>tx['to']\<close> and \<open>tx['data']\<close>) followed by \<open>recid\<close>, \<open>r\<close> and \<open>s\<close>, the
  last two as 32 big-endian bytes of the parsed values; \<open>s\<close> and \<open>recid\<close> are not
  changed.
\<close>

theorem C4_signature_encoded_as_given:
  assumes "serialize_signed_tx tx sg = Inr out"
  shows "\<exists>r s addr to_bytes data_bytes r_bytes s_bytes.
           int_base16 (sig_r sg) = Inr r \<and> int_base16 (sig_s sg) = Inr s
         \<and> tx_to tx = Some addr \<and> bytes_hex to_bytes = hex_text (drop 2 addr)
         \<and> bytes_hex data_bytes = hex_text (drop 2 (tx_data tx))
         \<and> hd out = 0x02
         \<and> rlp_decode (tl out)
             = Some (Items (signed_items tx to_bytes data_bytes (sig_recid sg) r_bytes s_bytes))
         \<and> length r_bytes = 32 \<and> int (big_endian_to_int r_bytes) = r
         \<and> length s_bytes = 32 \<and> int (big_endian_to_int s_bytes) = s"
proof -
  from serialize_signed_tx_decode [OF assms] obtain r s to_bytes data_bytes r_bytes s_bytes enc where
    d: "int_base16 (sig_r sg) = Inr r" "int_base16 (sig_s sg) = Inr s"
       "address_bytes (tx_to tx) = Inr to_bytes"
       "bytes_fromhex (drop 2 (tx_data tx)) = Inr data_bytes"
       "out = 0x02 # enc"
       "rlp_decode enc
          = Some (Items (signed_items tx to_bytes data_bytes (sig_recid sg) r_bytes s_bytes))"
       "length r_bytes = 32" "int (big_endian_to_int r_bytes) = r"
       "length s_bytes = 32" "int (big_endian_to_int s_bytes) = s"
    by (elim exE conjE)
  from address_bytes_hex [OF d(3)] obtain addr where
    addr: "tx_to tx = Some addr" "bytes_hex to_bytes = hex_text (drop 2 addr)" by blast
  note data = bytes_fromhex_hex [OF d(4)]
  show ?thesis
    using d(1,2,5-10) addr data
    by (intro exI [of _ r] exI [of _ s] exI [of _ addr] exI [of _ to_bytes] exI [of _ data_bytes]
        exI [of _ r_bytes] exI [of _ s_bytes]) simp
qed

theorem C4_signature_encoded_as_given_witness:
  "serialize_signed_tx example_tx example_high_s = Inr example_signed
   \<and> int_base16 (sig_s example_high_s) = Inr (secp256k1_n - 1)
   \<and> sig_recid example_high_s = 1
   \<and> hd example_signed = 0x02
   \<and> (\<exists>r_bytes s_bytes.
        rlp_decode (tl example_signed) = Some (Items (example_items @ [Atom [1], Atom r_bytes, Atom s_bytes]))
      \<and> int (big_endian_to_int r_bytes) = 1
      \<and> length s_bytes = 32 \<and> int (big_endian_to_int s_bytes) = secp256k1_n - 1)"
proof -
  note out = example_serializes
  from C4_signature_encoded_as_given [OF out] obtain r s addr to_bytes data_bytes r_bytes s_bytes where
    d: "int_base16 (sig_r example_high_s) = Inr r" "int_base16 (sig_s example_high_s) = Inr s"
       "tx_to example_tx = Some addr" "bytes_hex to_bytes = hex_text (drop 2 addr)"
       "bytes_hex data_bytes = hex_text (drop 2 (tx_data example_tx))"
       "hd example_signed = 0x02"
       "rlp_decode (tl example_signed) = Some (Items (signed_items example_tx to_bytes data_bytes
           (sig_recid example_high_s) r_bytes s_bytes))"
       "int (big_endian_to_int r_bytes) = r"
       "length s_bytes = 32" "int (big_endian_to_int s_bytes) = s"
    by (elim exE conjE)
  have s: "s = secp256k1_n - 1" using d(2) example_s by simp
  have r: "r = 1"
    using d(1) by (simp add: example_high_s_def int_base16_def strip_sign_def strip_prefix16_def
      int_space_def Py_ISSPACE_def digit_value_def)
  have v: "sig_recid example_high_s = 1" by (simp add: example_high_s_def)
  have "addr = ''0x00000000000000000000000000000000000000aa''"
    using d(3) by (simp add: example_tx_def)
  then have "bytes_hex to_bytes = hex_text ''00000000000000000000000000000000000000aa''"
    using d(4) by simp
  then have "bytes_hex to_bytes = bytes_hex [0, 0, 0, 0, 0, 0, 0, 0, 0, 0, 0, 0, 0, 0, 0, 0, 0, 0, 0, 170]"
    by (simp only: example_hex)
  then have t: "to_bytes = [0, 0, 0, 0, 0, 0, 0, 0, 0, 0, 0, 0, 0, 0, 0, 0, 0, 0, 0, 170]"
    by (rule bytes_hex_inj)
  have "bytes_hex data_bytes = bytes_hex [18, 52]"
    using d(5) by (simp add: example_tx_def example_hex)
  then have dt: "data_bytes = [18, 52]" by (rule bytes_hex_inj)
  have items: "signed_items example_tx to_bytes data_bytes (sig_recid example_high_s) r_bytes s_bytes
      = example_items @ [Atom [1], Atom r_bytes, Atom s_bytes]"
    unfolding t dt v signed_items_def example_unsigned_items
    by (simp add: int_item_def int_to_big_endian.simps)
  have "rlp_decode (tl example_signed) = Some (Items (example_items @ [Atom [1], Atom r_bytes, Atom s_bytes]))
      \<and> int (big_endian_to_int r_bytes) = 1
      \<and> length s_bytes = 32 \<and> int (big_endian_to_int s_bytes) = secp256k1_n - 1"
    using d(7-10) unfolding items r s by simp
  then have "\<exists>r_bytes s_bytes.
        rlp_decode (tl example_signed) = Some (Items (example_items @ [Atom [1], Atom r_bytes, Atom s_bytes]))
      \<and> int (big_endian_to_int r_bytes) = 1
      \<and> length s_bytes = 32 \<and> int (big_endian_to_int s_bytes) = secp256k1_n - 1"
    by blast
  then show ?thesis using out d(2,6) v unfolding s by simp
qed

section \<open>Action anchors\<close>

text \<open>
  Steps 1 to 4 of \<open>anchor_action_via_pkp\<close>: the work product is hashed, the creator's
  state hash is read from the chain (any exception of the read gives the all-zero
  value), the anchor document is built, serialized and hashed.
\<close>

text \<open>
  \<open>datetime.utcfromtimestamp(timestamp).isoformat()\<close> for an integer timestamp: the
  civil date of the day number, then hours, minutes and seconds.  Years outside 1 to
  9999 raise.
\<close>

definition civil_month :: "int \<Rightarrow> int \<Rightarrow> int \<Rightarrow> int \<times> int \<times> int" where
  "civil_month y doy mp =
     (y + (if mp < 10 then 0 else 1), (if mp < 10 then mp + 3 else mp - 9),
      doy - (153 * mp + 2) div 5 + 1)"

definition civil_day_of_year :: "int \<Rightarrow> int \<Rightarrow> int \<Rightarrow> int \<times> int \<times> int" where
  "civil_day_of_year era doe yoe =
     civil_month (yoe + era * 400) (doe - (365 * yoe + yoe div 4 - yoe div 100))
       ((5 * (doe - (365 * yoe + yoe div 4 - yoe div 100)) + 2) div 153)"

definition civil_year_of_era :: "int \<Rightarrow> int \<Rightarrow> int \<times> int \<times> int" where
  "civil_year_of_era era doe =
     civil_day_of_year era doe ((doe - doe div 1460 + doe div 36524 - doe div 146096) div 365)"

definition civil_from_days :: "int \<Rightarrow> int \<times> int \<times> int" where
  "civil_from_days days =
     civil_year_of_era ((days + 719468) div 146097) ((days + 719468) mod 146097)"

definition zero_pad :: "nat \<Rightarrow> int \<Rightarrow> string" where
  "zero_pad width i = replicate (width - length (int_repr i)) CHR ''0'' @ int_repr i"

definition utc_isoformat :: "int \<Rightarrow> py_error + string" where
  "utc_isoformat timestamp =
     (case civil_from_days (timestamp div 86400) of
        (y, m, d) \<Rightarrow>
          if y < 1 \<or> 9999 < y then Inl ValueError
          else Inr (zero_pad 4 y @ ''-'' @ zero_pad 2 m @ ''-'' @ zero_pad 2 d @ ''T''
                    @ zero_pad 2 (timestamp mod 86400 div 3600) @ '':''
                    @ zero_pad 2 (timestamp mod 3600 div 60) @ '':''
                    @ zero_pad 2 (timestamp mod 60)))"

lemmas iso_eval = replicate_numeral utc_isoformat_def civil_from_days_def civil_year_of_era_def
  civil_day_of_year_def civil_month_def zero_pad_def int_repr_def dec_nat.simps hex_digit_def









subsection \<open>The serialized anchor determines its fields\<close>

lemma hex_digit_plain:
  "d < 16 \<Longrightarrow> hex_digit d \<noteq> CHR 0x5C \<and> hex_digit d \<noteq> CHR 0x22 \<and> hex_digit d \<noteq> CHR ''-''
     \<and> hex_digit d \<noteq> CHR '','' \<and> hex_digit d \<noteq> CHR ''}'' \<and> hex_digit d \<noteq> CHR '']''"
proof -
  have "\<forall>d \<in> set [0..<16]. hex_digit d \<noteq> CHR 0x5C \<and> hex_digit d \<noteq> CHR 0x22 \<and> hex_digit d \<noteq> CHR ''-''
     \<and> hex_digit d \<noteq> CHR '','' \<and> hex_digit d \<noteq> CHR ''}'' \<and> hex_digit d \<noteq> CHR '']''"
    by code_simp
  then show "d < 16 \<Longrightarrow> ?thesis" by simp
qed


text \<open>The escape of a character is a prefix code, and never starts with a double quote.\<close>

datatype esc_class = Plain | Short | Unicode

definition esc_class_of :: "char \<Rightarrow> esc_class" where
  "esc_class_of c =
     (if c \<in> {CHR 0x5C, CHR 0x22, CHR 0x08, CHR 0x0C, CHR 0x0A, CHR 0x0D, CHR 0x09} then Short
      else if 32 \<le> (of_char c :: nat) \<and> (of_char c :: nat) \<le> 126 then Plain else Unicode)"






lemma basestring_starts: "\<exists>t. encode_basestring_ascii s = CHR 0x22 # t"
  by (simp add: encode_basestring_ascii_def)


text \<open>Decimal numerals: digits only, and the value can be read back.\<close>

definition is_digit :: "char \<Rightarrow> bool" where
  "is_digit c = (c \<in> set ''0123456789'')"






definition is_int_char :: "char \<Rightarrow> bool" where
  "is_int_char c = (is_digit c \<or> c = CHR ''-'')"




lemma not_int_char [simp]:
  "\<not> is_int_char (CHR '','')" "\<not> is_int_char (CHR ''}'')" "\<not> is_int_char (CHR '']'')"
  by (simp_all add: is_int_char_def is_digit_def)



















subsection \<open>A creator without anchored state\<close>







end
